theory Spec2Isabelle
  imports Complex_Main
begin

section \<open>Random projections: \<open>randproj_util.cc\<close>\<close>

text \<open>
  The file instantiates its two templates for \<open>float\<close> and \<open>double\<close>. The embedding
  computes in exact arithmetic: an element of type \<open>dist_t\<close> is a real number. Indices
  and dimensions are \<open>size_t\<close>; every index the code forms is at most a dimension it was
  given, so no index wraps around and natural numbers are used.
\<close>

subsection \<open>Vectors, raw pointers and the dot product\<close>

text \<open>
  A raw pointer \<open>dist_t*\<close> carries no length: it is modelled by the memory that is
  reachable from it, indexed by element offset. \<open>data_ptr v\<close> is \<open>&v[0]\<close> for a
  \<open>std::vector\<close> \<open>v\<close>.
\<close>

type_synonym 'a ptr = "nat \<Rightarrow> 'a"

definition data_ptr :: "'a list \<Rightarrow> 'a ptr" where
  "data_ptr v = (\<lambda>j. v ! j)"

text \<open>
  Modelled from the spec: \<open>ScalarProductSIMD\<close> is declared in \<open>distcomp.h\<close>, which is
  not among the sources. The specification describes it as the dot-product primitive
  \<open>dot(a, b, length)\<close>, the inner product of two numeric vectors of that length.
\<close>

definition ScalarProductSIMD :: "real ptr \<Rightarrow> real ptr \<Rightarrow> nat \<Rightarrow> real" where
  "ScalarProductSIMD pVect1 pVect2 qty = (\<Sum>j<qty. pVect1 j * pVect2 j)"

text \<open>
  \<open>std::vector::resize\<close>: keeps the first \<open>n\<close> elements and appends value-initialised
  ones (\<open>d\<close>) when the vector was shorter.
\<close>

definition resize :: "nat \<Rightarrow> 'a \<Rightarrow> 'a list \<Rightarrow> 'a list" where
  "resize n d xs = take n xs @ replicate (n - length xs) d"

text \<open>The assignment \<open>projMatr[i][j] = x\<close>.\<close>

definition set_elem :: "'a list list \<Rightarrow> nat \<Rightarrow> nat \<Rightarrow> 'a \<Rightarrow> 'a list list" where
  "set_elem m i j x = m[i := (m ! i)[j := x]]"

text \<open>The loop \<open>for (size_t i = lo; i < n; ++i) body\<close> on a state \<open>s\<close>.\<close>

function for_loop :: "nat \<Rightarrow> nat \<Rightarrow> (nat \<Rightarrow> 's \<Rightarrow> 's) \<Rightarrow> 's \<Rightarrow> 's" where
  "for_loop i n body s = (if i < n then for_loop (Suc i) n body (body i s) else s)"
  by pat_completeness auto
termination
  by (relation "measure (\<lambda>(i, n, body, s). n - i)") auto

declare for_loop.simps [simp del]

subsection \<open>Building the matrix: \<open>initRandProj\<close>\<close>

text \<open>
  The static random engine and the normal distribution are library objects. Their joint
  state determines the sequence of numbers that later calls of \<open>normGen(engine)\<close>
  return; the state is modelled by that sequence. A call returns the first number and
  leaves the rest.
\<close>

type_synonym engine = "nat \<Rightarrow> real"

definition normGen :: "engine \<Rightarrow> real \<times> engine" where
  "normGen g = (g 0, \<lambda>k. g (Suc k))"

text \<open>Step 1, the inner loop: \<open>for j: projMatr[i][j] = normGen(engine)\<close>.\<close>

definition fill_row :: "nat \<Rightarrow> nat \<Rightarrow> real list list \<times> engine \<Rightarrow> real list list \<times> engine" where
  "fill_row nSrcDim i =
     for_loop 0 nSrcDim (\<lambda>j (m, g). case normGen g of (x, g') \<Rightarrow> (set_elem m i j x, g'))"

text \<open>
  Step 1: \<open>projMatr.resize(nDstDim)\<close>, then each row is resized and filled. The
  matrix is a reference parameter, so the caller's matrix \<open>projMatr0\<close> is an input.
\<close>

definition draw_rows :: "nat \<Rightarrow> nat \<Rightarrow> real list list \<Rightarrow> engine \<Rightarrow> real list list \<times> engine" where
  "draw_rows nSrcDim nDstDim projMatr0 g0 =
     for_loop 0 nDstDim
       (\<lambda>i (m, g). fill_row nSrcDim i (m[i := resize nSrcDim 0 (m ! i)], g))
       (resize nDstDim [] projMatr0, g0)"

text \<open>
  Step 2, for row \<open>i\<close>:
  \<open>normCoeff = sqrt(ScalarProductSIMD(&projMatr[i][0], &projMatr[i][0], nSrcDim))\<close>,
  then \<open>for n: projMatr[i][n] /= normCoeff\<close>.

  Division by a zero \<open>normCoeff\<close> gives infinities or NaNs in the program and \<open>0\<close> in
  HOL; the model agrees with the program's exact arithmetic where \<open>normCoeff\<close> is not
  zero.
\<close>

definition normCoeff :: "nat \<Rightarrow> nat \<Rightarrow> real list list \<Rightarrow> real" where
  "normCoeff nSrcDim i m =
     sqrt (ScalarProductSIMD (data_ptr (m ! i)) (data_ptr (m ! i)) nSrcDim)"

definition normalize_row :: "nat \<Rightarrow> nat \<Rightarrow> real list list \<Rightarrow> real list list" where
  "normalize_row nSrcDim i m =
     (let c = normCoeff nSrcDim i m
      in for_loop 0 nSrcDim (\<lambda>n m. set_elem m i n (m ! i ! n / c)) m)"

text \<open>
  Step 2, for rows \<open>i\<close> and \<open>k\<close>:
  \<open>coeff = ScalarProductSIMD(&projMatr[i][0], &projMatr[k][0], nSrcDim)\<close>, then
  \<open>for n: projMatr[k][n] -= coeff * projMatr[i][n]\<close>.
\<close>

definition subtract_row :: "nat \<Rightarrow> nat \<Rightarrow> nat \<Rightarrow> real list list \<Rightarrow> real list list" where
  "subtract_row nSrcDim i k m =
     (let coeff = ScalarProductSIMD (data_ptr (m ! i)) (data_ptr (m ! k)) nSrcDim
      in for_loop 0 nSrcDim (\<lambda>n m. set_elem m k n (m ! k ! n - coeff * (m ! i ! n))) m)"

text \<open>The body of the outer loop of step 2: it does something only if \<open>bDoOrth\<close>.\<close>

definition orth_body :: "nat \<Rightarrow> nat \<Rightarrow> bool \<Rightarrow> nat \<Rightarrow> real list list \<Rightarrow> real list list" where
  "orth_body nSrcDim nDstDim bDoOrth i m =
     (if bDoOrth
      then for_loop (i + 1) nDstDim (subtract_row nSrcDim i) (normalize_row nSrcDim i m)
      else m)"

definition initRandProj ::
  "nat \<Rightarrow> nat \<Rightarrow> bool \<Rightarrow> real list list \<Rightarrow> engine \<Rightarrow> real list list \<times> engine" where
  "initRandProj nSrcDim nDstDim bDoOrth projMatr0 g0 =
     (case draw_rows nSrcDim nDstDim projMatr0 g0 of
        (m, g) \<Rightarrow> (for_loop 0 nDstDim (orth_body nSrcDim nDstDim bDoOrth) m, g))"

subsection \<open>Step 2 with the assignments it executes\<close>







subsection \<open>What step 1 and step 2 compute\<close>

text \<open>
  The matrix of the draws: \<open>normGen(engine)\<close> is called once per element, row by row,
  so element \<open>j\<close> of row \<open>i\<close> is draw number \<open>i * nSrcDim + j\<close>.
\<close>

definition drawn :: "nat \<Rightarrow> nat \<Rightarrow> engine \<Rightarrow> real list list" where
  "drawn nSrcDim nDstDim g =
     map (\<lambda>i. map (\<lambda>j. g (i * nSrcDim + j)) [0..<nSrcDim]) [0..<nDstDim]"

text \<open>A matrix of \<open>nDstDim\<close> rows of \<open>nSrcDim\<close> elements each.\<close>

definition well_shaped :: "nat \<Rightarrow> nat \<Rightarrow> real list list \<Rightarrow> bool" where
  "well_shaped nSrcDim nDstDim m \<longleftrightarrow>
     length m = nDstDim \<and> (\<forall>i<nDstDim. length (m ! i) = nSrcDim)"

text \<open>
  The dot product and the Euclidean norm of vectors, on lists, as a reference for
  \<open>ScalarProductSIMD\<close> on pointers.
\<close>

definition dot :: "real list \<Rightarrow> real list \<Rightarrow> real" where
  "dot u v = (\<Sum>(x, y)\<leftarrow>zip u v. x * y)"

definition euclid_norm :: "real list \<Rightarrow> real" where
  "euclid_norm v = sqrt (dot v v)"

text \<open>
  The specification's modified Gram--Schmidt process, in its words: in row order
  \<open>i = 0 .. nDstDim-1\<close>, normalize row \<open>i\<close> to unit norm (divide it by its Euclidean
  norm); then, for each subsequent row \<open>k > i\<close>, compute the coefficient
  \<open>dot(row[i], row[k])\<close> with the normalized row \<open>i\<close> and subtract
  \<open>coefficient * row[i]\<close> from row \<open>k\<close>, with no division by the norm of row \<open>i\<close>.
  This is a second definition, written from the specification, to compare the loops of
  \<open>initRandProj\<close> with.
\<close>

definition normalized :: "real list \<Rightarrow> real list" where
  "normalized v = map (\<lambda>x. x / euclid_norm v) v"

definition minus_projection :: "real list \<Rightarrow> real list \<Rightarrow> real list" where
  "minus_projection u v = map (\<lambda>(x, y). y - dot u v * x) (zip u v)"

definition mgs_step :: "nat \<Rightarrow> real list list \<Rightarrow> real list list" where
  "mgs_step i m =
     (let u = normalized (m ! i)
      in map (\<lambda>k. if k = i then u else if i < k then minus_projection u (m ! k) else m ! k)
           [0..<length m])"



text \<open>
  The value of \<open>normCoeff\<close> that iteration \<open>i\<close> of step 2 computes when step 2 is run
  on the matrix \<open>m\<close> with \<open>bDoOrth = true\<close>: the norm of row \<open>i\<close> after the
  iterations \<open>0\<close> to \<open>i - 1\<close>.
\<close>

definition intermediate_norm :: "nat \<Rightarrow> nat \<Rightarrow> real list list \<Rightarrow> nat \<Rightarrow> real" where
  "intermediate_norm nSrcDim nDstDim m i =
     normCoeff nSrcDim i (for_loop 0 i (orth_body nSrcDim nDstDim True) m)"

text \<open>
  The first \<open>i\<close> rows have unit norm and each of them is orthogonal to every other
  row of the matrix.
\<close>

definition orthonormal_upto :: "nat \<Rightarrow> nat \<Rightarrow> real list list \<Rightarrow> bool" where
  "orthonormal_upto i d m \<longleftrightarrow>
     (\<forall>a<i. dot (m ! a) (m ! a) = 1)
     \<and> (\<forall>a<i. \<forall>b<d. a \<noteq> b \<longrightarrow> dot (m ! a) (m ! b) = 0)"

subsection \<open>Applying the matrix: \<open>compProj\<close>\<close>

text \<open>
  Modelled from the spec: \<open>LOG(LIB_FATAL)\<close> comes from \<open>logging.h\<close>, which is not among
  the sources. The specification describes it as a fatal-error sink that halts
  execution with a diagnostic message. A halted call is the outcome \<open>Some\<close> of the
  message's content; \<open>None\<close> means that the call returned.
\<close>

datatype fatal =
    EmptyMatrix
  | RowCount nat nat
  | ColCount nat nat nat

text \<open>
  The objects a call of \<open>compProj\<close> can reach: the matrix (a \<open>const\<close> reference), the
  source buffer (a pointer to \<open>const\<close>) and the destination buffer. The source and the
  destination are the two buffers of the specification's data model, distinct objects
  owned by the caller.
\<close>

record proj_mem =
  projMatr :: "real list list"
  pSrcVect :: "real ptr"
  pDstVect :: "real ptr"

text \<open>The loop over the rows, from index \<open>i\<close> on; the size check halts the call.\<close>

function compProj_rows :: "nat \<Rightarrow> nat \<Rightarrow> nat \<Rightarrow> proj_mem \<Rightarrow> fatal option \<times> proj_mem" where
  "compProj_rows nSrcDim nDstDim i s =
     (if i < nDstDim then
        (if length (projMatr s ! i) \<noteq> nSrcDim
         then (Some (ColCount i (length (projMatr s ! i)) nSrcDim), s)
         else compProj_rows nSrcDim nDstDim (Suc i)
                (s\<lparr>pDstVect := (pDstVect s)
                     (i := ScalarProductSIMD (data_ptr (projMatr s ! i)) (pSrcVect s) nSrcDim)\<rparr>))
      else (None, s))"
  by pat_completeness auto
termination
  by (relation "measure (\<lambda>(nSrcDim, nDstDim, i, s). nDstDim - i)") auto

declare compProj_rows.simps [simp del]

definition compProj :: "proj_mem \<Rightarrow> nat \<Rightarrow> nat \<Rightarrow> fatal option \<times> proj_mem" where
  "compProj s nSrcDim nDstDim =
     (if projMatr s = [] then (Some EmptyMatrix, s)
      else if length (projMatr s) \<noteq> nDstDim
      then (Some (RowCount (length (projMatr s)) nDstDim), s)
      else compProj_rows nSrcDim nDstDim 0 s)"

text \<open>
  The state after the loop has written the entries \<open>lo\<close> to \<open>hi - 1\<close> of the
  destination buffer.
\<close>

definition wrote :: "nat \<Rightarrow> nat \<Rightarrow> nat \<Rightarrow> proj_mem \<Rightarrow> proj_mem" where
  "wrote nSrcDim lo hi s =
     s\<lparr>pDstVect := (\<lambda>j. if lo \<le> j \<and> j < hi
                         then ScalarProductSIMD (data_ptr (projMatr s ! j)) (pSrcVect s) nSrcDim
                         else pDstVect s j)\<rparr>"

section \<open>Properties of \<open>initRandProj\<close>\<close>

subsection \<open>Loops\<close>

lemma for_loop_fold: "for_loop i n body s = fold body [i..<n] s"
proof (induction i n body s rule: for_loop.induct)
  case (1 i n body s)
  show ?case
  proof (cases "i < n")
    case True
    then show ?thesis
      using "1.IH" by (simp add: for_loop.simps[of i] upt_conv_Cons)
  next
    case False
    then show ?thesis by (simp add: for_loop.simps[of i])
  qed
qed

lemma for_loop_done: "n \<le> i \<Longrightarrow> for_loop i n body s = s"
  by (simp add: for_loop.simps[of i])

lemma for_loop_Suc:
  "i \<le> n \<Longrightarrow> for_loop i (Suc n) body s = body n (for_loop i n body s)"
  by (simp add: for_loop_fold)

lemma for_loop_invariant:
  assumes init: "P i s"
    and step: "\<And>j t. i \<le> j \<Longrightarrow> j < n \<Longrightarrow> P j t \<Longrightarrow> P (Suc j) (body j t)"
    and le: "i \<le> n"
  shows "P n (for_loop i n body s)"
  using le
proof (induction n rule: dec_induct)
  case base
  show ?case using init by (simp add: for_loop_done)
next
  case (step k)
  have "P k (for_loop i k body s)" by (rule step.IH)
  then have "P (Suc k) (body k (for_loop i k body s))"
    using step.hyps by (intro assms(2)) simp_all
  then show ?case using step.hyps by (simp add: for_loop_Suc)
qed

subsection \<open>Step 1: the matrix of draws\<close>

lemma length_resize: "length (resize n d xs) = n"
  by (simp add: resize_def)

lemma update_next:
  assumes "length xs = j" "j < length row"
  shows "(xs @ drop j row)[j := x] = (xs @ [x]) @ drop (Suc j) row"
proof -
  have "drop j row = row ! j # drop (Suc j) row"
    using assms(2) by (simp add: Cons_nth_drop_Suc)
  then show ?thesis using assms(1) by (simp add: list_update_append)
qed

lemma nth_next:
  assumes "length xs = j" "j < length row"
  shows "(xs @ drop j row) ! j = row ! j"
  using assms by (simp add: nth_append)

text \<open>A loop that overwrites the entries of row \<open>k\<close> one after the other.\<close>

lemma for_loop_row:
  assumes k: "k < length m" and len: "length (m ! k) = n"
    and F: "\<And>j t. j < n \<Longrightarrow> length t = length m \<Longrightarrow> (\<forall>r. r \<noteq> k \<longrightarrow> t ! r = m ! r)
               \<Longrightarrow> t ! k ! j = m ! k ! j \<Longrightarrow> F j t = f j"
  shows "for_loop 0 n (\<lambda>j t. set_elem t k j (F j t)) m = m[k := map f [0..<n]]"
proof -
  let ?P = "\<lambda>j t. t = m[k := map f [0..<j] @ drop j (m ! k)]"
  have init: "?P 0 m" by simp
  have step: "?P (Suc j) (set_elem t k j (F j t))" if j: "j < n" and t: "?P j t" for j t
  proof -
    have lenj: "length (map f [0..<j]) = j" by simp
    have jr: "j < length (m ! k)" using j len by simp
    have tk: "t ! k = map f [0..<j] @ drop j (m ! k)" using t k by simp
    have "F j t = f j"
    proof (rule F[OF j])
      show "length t = length m" using t by simp
      show "\<forall>r. r \<noteq> k \<longrightarrow> t ! r = m ! r" using t by simp
      show "t ! k ! j = m ! k ! j" unfolding tk by (rule nth_next[OF lenj jr])
    qed
    then have "set_elem t k j (F j t) = t[k := (map f [0..<j] @ drop j (m ! k))[j := f j]]"
      by (simp add: set_elem_def tk)
    also have "\<dots> = t[k := map f [0..<Suc j] @ drop (Suc j) (m ! k)]"
      by (simp only: update_next[OF lenj jr]) simp
    also have "\<dots> = m[k := map f [0..<Suc j] @ drop (Suc j) (m ! k)]"
      using t by simp
    finally show ?thesis .
  qed
  have "?P n (for_loop 0 n (\<lambda>j t. set_elem t k j (F j t)) m)"
    by (rule for_loop_invariant[where P = ?P, OF init step]) simp_all
  then show ?thesis using len by simp
qed

lemma fill_row_eq:
  assumes i: "i < length m" and len: "length (m ! i) = n"
  shows "fill_row n i (m, g) = (m[i := map g [0..<n]], \<lambda>c. g (n + c))"
proof -
  let ?body = "\<lambda>j (t, h). case normGen h of (x, h') \<Rightarrow> (set_elem t i j x, h')"
  let ?P = "\<lambda>j (t, h). t = m[i := map g [0..<j] @ drop j (m ! i)] \<and> h = (\<lambda>c. g (j + c))"
  have init: "?P 0 (m, g)" by simp
  have step: "?P (Suc j) (?body j s)" if j: "j < n" and s: "?P j s" for j s
  proof -
    obtain t h where th: "s = (t, h)" by (cases s)
    have t: "t = m[i := map g [0..<j] @ drop j (m ! i)]" and h: "h = (\<lambda>c. g (j + c))"
      using s th by simp_all
    have lenj: "length (map g [0..<j]) = j" by simp
    have jr: "j < length (m ! i)" using j len by simp
    have tk: "t ! i = map g [0..<j] @ drop j (m ! i)" using t i by simp
    have "set_elem t i j (h 0) = t[i := (map g [0..<j] @ drop j (m ! i))[j := g j]]"
      by (simp add: set_elem_def tk h)
    also have "\<dots> = t[i := map g [0..<Suc j] @ drop (Suc j) (m ! i)]"
      by (simp only: update_next[OF lenj jr]) simp
    also have "\<dots> = m[i := map g [0..<Suc j] @ drop (Suc j) (m ! i)]"
      using t by simp
    finally show ?thesis
      by (simp add: th normGen_def h)
  qed
  have "?P n (for_loop 0 n ?body (m, g))"
    by (rule for_loop_invariant[where P = ?P, OF init step]) simp_all
  then show ?thesis using len by (simp add: fill_row_def split: prod.splits)
qed

lemma draw_rows_eq:
  "draw_rows nSrcDim nDstDim projMatr0 g0 =
     (drawn nSrcDim nDstDim g0, \<lambda>c. g0 (nDstDim * nSrcDim + c))"
proof -
  let ?m0 = "resize nDstDim [] projMatr0"
  let ?row = "\<lambda>i. map (\<lambda>j. g0 (i * nSrcDim + j)) [0..<nSrcDim]"
  let ?body = "\<lambda>i (m, g). fill_row nSrcDim i (m[i := resize nSrcDim 0 (m ! i)], g)"
  let ?P = "\<lambda>i (m, g). m = map ?row [0..<i] @ drop i ?m0 \<and> g = (\<lambda>c. g0 (i * nSrcDim + c))"
  have init: "?P 0 (?m0, g0)" by simp
  have step: "?P (Suc i) (?body i s)" if i: "i < nDstDim" and s: "?P i s" for i s
  proof -
    obtain m g where mg: "s = (m, g)" by (cases s)
    have m: "m = map ?row [0..<i] @ drop i ?m0" and g: "g = (\<lambda>c. g0 (i * nSrcDim + c))"
      using s mg by simp_all
    have leni: "length (map ?row [0..<i]) = i" by simp
    have ir: "i < length ?m0" using i by (simp add: length_resize)
    let ?m1 = "m[i := resize nSrcDim 0 (m ! i)]"
    have lm1: "i < length ?m1" using m i by (simp add: length_resize)
    have lr: "length (?m1 ! i) = nSrcDim" using lm1 by (simp add: length_resize)
    have "fill_row nSrcDim i (?m1, g) = (?m1[i := map g [0..<nSrcDim]], \<lambda>c. g (nSrcDim + c))"
      by (rule fill_row_eq[OF lm1 lr])
    moreover have "?m1[i := map g [0..<nSrcDim]] = m[i := ?row i]"
      by (simp add: g)
    moreover have "m[i := ?row i] = map ?row [0..<Suc i] @ drop (Suc i) ?m0"
      unfolding m by (simp only: update_next[OF leni ir]) simp
    moreover have "(\<lambda>c. g (nSrcDim + c)) = (\<lambda>c. g0 (Suc i * nSrcDim + c))"
      by (simp add: g fun_eq_iff add.assoc add.commute)
    ultimately show ?thesis by (simp add: mg)
  qed
  have "?P nDstDim (for_loop 0 nDstDim ?body (?m0, g0))"
    by (rule for_loop_invariant[where P = ?P, OF init step]) simp_all
  then show ?thesis
    by (simp add: draw_rows_def drawn_def length_resize split: prod.splits)
qed

lemma for_loop_id: "for_loop i n (\<lambda>j s. s) s = s"
proof -
  have "fold (\<lambda>j s. s) xs s = s" for xs :: "nat list"
    by (induction xs) simp_all
  then show ?thesis by (simp add: for_loop_fold)
qed

lemma initRandProj_no_orth:
  "fst (initRandProj nSrcDim nDstDim False projMatr0 g0) = drawn nSrcDim nDstDim g0"
proof -
  have "orth_body nSrcDim nDstDim False = (\<lambda>j s. s)"
    by (simp add: orth_body_def fun_eq_iff)
  then show ?thesis
    by (simp add: initRandProj_def draw_rows_eq for_loop_id)
qed

text \<open>
  Claim C1 does not hold of the code. The comment in the source says of step 2:
  ``Otherwise, just divide each vector by its norm'', but the body of the loop is
  guarded by \<open>if (bDoOrth)\<close> and has no other branch, so with \<open>bDoOrth = false\<close> the
  matrix of draws is returned as it is. With one row, one column and the draw 2, the
  row returned is \<open>(2)\<close>, of norm 2.
\<close>

theorem initRandProj_no_orth_not_normalized:
  "fst (initRandProj 1 1 False [] (data_ptr [2])) = [[2]]
   \<and> euclid_norm (fst (initRandProj 1 1 False [] (data_ptr [2])) ! 0) = 2"
proof -
  have "sqrt 4 = (2::real)" using real_sqrt_abs2[of 2] by simp
  then show ?thesis
    by (simp add: initRandProj_no_orth drawn_def data_ptr_def euclid_norm_def dot_def)
qed

subsection \<open>Step 2 and the modified Gram--Schmidt process\<close>

lemma dot_sum:
  assumes "length u = n" "length v = n"
  shows "dot u v = (\<Sum>j<n. u ! j * v ! j)"
proof -
  have "dot u v = (\<Sum>j = 0..<n. map (\<lambda>(x, y). x * y) (zip u v) ! j)"
    using assms by (simp add: dot_def sum_list_sum_nth)
  also have "\<dots> = (\<Sum>j = 0..<n. u ! j * v ! j)"
    using assms by (intro sum.cong) simp_all
  finally show ?thesis by (simp add: atLeast0LessThan)
qed

lemma ScalarProductSIMD_dot:
  "length u = n \<Longrightarrow> length v = n \<Longrightarrow>
   ScalarProductSIMD (data_ptr u) (data_ptr v) n = dot u v"
  by (simp add: ScalarProductSIMD_def data_ptr_def dot_sum)

lemma normCoeff_norm:
  "length (m ! i) = n \<Longrightarrow> normCoeff n i m = euclid_norm (m ! i)"
  by (simp add: normCoeff_def euclid_norm_def ScalarProductSIMD_dot)

lemma map_upt_nth: "length xs = n \<Longrightarrow> map (\<lambda>j. f (xs ! j)) [0..<n] = map f xs"
  by (rule nth_equalityI) simp_all

lemma normalize_row_eq:
  assumes i: "i < length m" and len: "length (m ! i) = n"
  shows "normalize_row n i m = m[i := normalized (m ! i)]"
proof -
  let ?c = "normCoeff n i m"
  have "for_loop 0 n (\<lambda>j t. set_elem t i j (t ! i ! j / ?c)) m
      = m[i := map (\<lambda>j. m ! i ! j / ?c) [0..<n]]"
    by (rule for_loop_row[OF i len]) simp
  moreover have "map (\<lambda>j. m ! i ! j / ?c) [0..<n] = normalized (m ! i)"
    using len map_upt_nth[of "m ! i" n "\<lambda>x. x / euclid_norm (m ! i)"]
    by (simp add: normalized_def normCoeff_norm)
  ultimately show ?thesis by (simp add: normalize_row_def)
qed

lemma subtract_row_eq:
  assumes ik: "i \<noteq> k" and k: "k < length m"
    and li: "length (m ! i) = n" and lk: "length (m ! k) = n"
  shows "subtract_row n i k m = m[k := minus_projection (m ! i) (m ! k)]"
proof -
  let ?c = "ScalarProductSIMD (data_ptr (m ! i)) (data_ptr (m ! k)) n"
  have "for_loop 0 n (\<lambda>j t. set_elem t k j (t ! k ! j - ?c * (t ! i ! j))) m
      = m[k := map (\<lambda>j. m ! k ! j - ?c * (m ! i ! j)) [0..<n]]"
    by (rule for_loop_row[OF k lk]) (simp add: ik)
  moreover have "map (\<lambda>j. m ! k ! j - ?c * (m ! i ! j)) [0..<n]
      = minus_projection (m ! i) (m ! k)"
    using li lk
    by (intro nth_equalityI) (simp_all add: minus_projection_def ScalarProductSIMD_dot)
  ultimately show ?thesis by (simp add: subtract_row_def)
qed

lemma length_minus_projection:
  "length u = n \<Longrightarrow> length v = n \<Longrightarrow> length (minus_projection u v) = n"
  by (simp add: minus_projection_def)

lemma length_normalized: "length (normalized v) = length v"
  by (simp add: normalized_def)

lemma subtract_loop_eq:
  assumes ws: "well_shaped n d m" and i: "i < d"
  shows "for_loop (Suc i) d (subtract_row n i) m =
     map (\<lambda>r. if i < r then minus_projection (m ! i) (m ! r) else m ! r) [0..<d]"
proof -
  have lm: "length m = d" and rows: "\<And>r. r < d \<Longrightarrow> length (m ! r) = n"
    using ws by (simp_all add: well_shaped_def)
  let ?P = "\<lambda>k t. t = map (\<lambda>r. if i < r \<and> r < k
                                  then minus_projection (m ! i) (m ! r) else m ! r) [0..<d]"
  have init: "?P (Suc i) m"
    using lm by (intro nth_equalityI) simp_all
  have step: "?P (Suc k) (subtract_row n i k t)"
    if ik: "Suc i \<le> k" and k: "k < d" and t: "?P k t" for k t
  proof -
    have ti: "t ! i = m ! i" and tk: "t ! k = m ! k" and lt: "length t = d"
      using t i k by simp_all
    have "subtract_row n i k t = t[k := minus_projection (t ! i) (t ! k)]"
      using ik k lt ti tk rows[OF i] rows[OF k] by (intro subtract_row_eq) simp_all
    also have "\<dots> = map (\<lambda>r. if i < r \<and> r < Suc k
                            then minus_projection (m ! i) (m ! r) else m ! r) [0..<d]"
      using ik by (intro nth_equalityI) (auto simp: lt ti tk t nth_list_update less_Suc_eq)
    finally show ?thesis .
  qed
  have "?P d (for_loop (Suc i) d (subtract_row n i) m)"
    by (rule for_loop_invariant[where P = ?P, OF init step]) (use i in simp_all)
  then show ?thesis by simp
qed

lemma orth_body_eq:
  assumes ws: "well_shaped n d m" and i: "i < d"
  shows "orth_body n d True i m = mgs_step i m"
proof -
  have lm: "length m = d" and rows: "\<And>r. r < d \<Longrightarrow> length (m ! r) = n"
    using ws by (simp_all add: well_shaped_def)
  let ?m1 = "m[i := normalized (m ! i)]"
  have n1: "normalize_row n i m = ?m1"
    using i lm rows[OF i] by (intro normalize_row_eq) simp_all
  have "length (?m1 ! r) = n" if "r < d" for r
    using that rows[of r] rows[OF i] lm
    by (cases "r = i") (simp_all add: length_normalized)
  then have ws1: "well_shaped n d ?m1"
    using lm by (simp add: well_shaped_def)
  have "orth_body n d True i m = for_loop (Suc i) d (subtract_row n i) ?m1"
    by (simp add: orth_body_def n1)
  also have "\<dots> = map (\<lambda>r. if i < r then minus_projection (?m1 ! i) (?m1 ! r) else ?m1 ! r)
                      [0..<d]"
    by (rule subtract_loop_eq[OF ws1 i])
  also have "\<dots> = mgs_step i m"
    using i lm by (auto simp: mgs_step_def Let_def nth_list_update)
  finally show ?thesis .
qed

lemma well_shaped_mgs_step:
  assumes ws: "well_shaped n d m" and i: "i < d"
  shows "well_shaped n d (mgs_step i m)"
  using assms
  by (simp add: well_shaped_def mgs_step_def Let_def length_normalized
      length_minus_projection)

lemma well_shaped_drawn: "well_shaped n d (drawn n d g)"
  by (simp add: well_shaped_def drawn_def)

lemma orth_loop_eq:
  assumes ws: "well_shaped n d m" and k: "k \<le> d"
  shows "for_loop 0 k (orth_body n d True) m = fold mgs_step [0..<k] m
    \<and> well_shaped n d (for_loop 0 k (orth_body n d True) m)"
  using k
proof (induction k)
  case 0
  show ?case using ws by (simp add: for_loop_done)
next
  case (Suc k)
  from Suc.prems have kd: "k < d" by simp
  then have "k \<le> d" by simp
  from Suc.IH[OF this]
  have IH: "for_loop 0 k (orth_body n d True) m = fold mgs_step [0..<k] m"
    and wsk: "well_shaped n d (for_loop 0 k (orth_body n d True) m)"
    by blast+
  have "for_loop 0 (Suc k) (orth_body n d True) m
      = mgs_step k (for_loop 0 k (orth_body n d True) m)"
    by (simp add: for_loop_Suc orth_body_eq[OF wsk kd])
  moreover have "mgs_step k (for_loop 0 k (orth_body n d True) m)
      = fold mgs_step [0..<Suc k] m"
    by (simp add: IH)
  ultimately show ?case using well_shaped_mgs_step[OF wsk kd] by simp
qed

lemma orth_loop_drawn:
  shows "for_loop 0 d (orth_body n d True) (drawn n d g) = fold mgs_step [0..<d] (drawn n d g)"
    and "well_shaped n d (for_loop 0 d (orth_body n d True) (drawn n d g))"
  using orth_loop_eq[OF well_shaped_drawn, of d d n g] by blast+

text \<open>
  Claim C4: for either value of \<open>bDoOrth\<close>, whatever the matrix passed in held, the
  matrix built has \<open>nDstDim\<close> rows of \<open>nSrcDim\<close> elements each. The dimensions need
  not be positive for this.
\<close>

theorem initRandProj_shape:
  "length (fst (initRandProj nSrcDim nDstDim bDoOrth projMatr0 g0)) = nDstDim
   \<and> (\<forall>i<nDstDim. length (fst (initRandProj nSrcDim nDstDim bDoOrth projMatr0 g0) ! i)
                       = nSrcDim)"
proof (cases bDoOrth)
  case False
  then show ?thesis
    using well_shaped_drawn[of nSrcDim nDstDim g0]
    by (simp add: initRandProj_no_orth well_shaped_def)
next
  case True
  have "well_shaped nSrcDim nDstDim
     (for_loop 0 nDstDim (orth_body nSrcDim nDstDim True) (drawn nSrcDim nDstDim g0))"
    by (rule orth_loop_drawn(2))
  then show ?thesis
    using True by (simp add: initRandProj_def draw_rows_eq well_shaped_def)
qed

text \<open>
  Two rows of three elements.
\<close>

theorem initRandProj_shape_witness:
  "length (fst (initRandProj 3 2 True [] (data_ptr [1, 0, 0, 1, 1, 0]))) = 2
   \<and> length (fst (initRandProj 3 2 True [] (data_ptr [1, 0, 0, 1, 1, 0])) ! 0) = 3
   \<and> length (fst (initRandProj 3 2 True [] (data_ptr [1, 0, 0, 1, 1, 0])) ! 1) = 3"
  using initRandProj_shape[of 3 2 True "[]" "data_ptr [1, 0, 0, 1, 1, 0]"]
  by (simp add: All_less_Suc numeral_2_eq_2)

subsection \<open>Orthonormal rows\<close>

lemma dot_commute: "length u = length v \<Longrightarrow> dot u v = dot v u"
  by (simp add: dot_sum[of u "length v" v] dot_sum[of v "length v" u] mult.commute)

lemma dot_self_nonneg: "0 \<le> dot v v"
  by (simp add: dot_sum[of v "length v" v] sum_nonneg)

lemma nth_normalized: "j < length v \<Longrightarrow> normalized v ! j = v ! j / euclid_norm v"
  by (simp add: normalized_def)

lemma nth_minus_projection:
  "j < length u \<Longrightarrow> j < length v \<Longrightarrow>
   minus_projection u v ! j = v ! j - dot u v * u ! j"
  by (simp add: minus_projection_def)

lemma dot_normalized_right:
  assumes "length w = length v"
  shows "dot w (normalized v) = dot w v / euclid_norm v"
proof -
  have "dot w (normalized v) = (\<Sum>j<length v. w ! j * (v ! j / euclid_norm v))"
    using assms by (simp add: dot_sum[of w "length v"] length_normalized nth_normalized)
  also have "\<dots> = (\<Sum>j<length v. w ! j * v ! j) / euclid_norm v"
    by (simp add: sum_divide_distrib)
  finally show ?thesis using assms by (simp add: dot_sum[of w "length v" v])
qed

lemma dot_normalized_self:
  assumes "euclid_norm v \<noteq> 0"
  shows "dot (normalized v) (normalized v) = 1"
proof -
  let ?c = "euclid_norm v"
  have cc: "?c * ?c = dot v v"
    by (simp add: euclid_norm_def dot_self_nonneg)
  have "dot (normalized v) (normalized v) = dot (normalized v) v / ?c"
    by (simp add: dot_normalized_right length_normalized)
  also have "dot (normalized v) v = dot v (normalized v)"
    by (simp add: dot_commute length_normalized)
  also have "\<dots> = dot v v / ?c"
    by (simp add: dot_normalized_right)
  finally have "dot (normalized v) (normalized v) = dot v v / (?c * ?c)"
    by simp
  moreover have "dot v v \<noteq> 0"
    using assms by (auto simp: euclid_norm_def)
  ultimately show ?thesis using cc by simp
qed

lemma dot_minus_projection_right:
  assumes "length u = n" "length v = n" "length w = n"
  shows "dot w (minus_projection u v) = dot w v - dot u v * dot w u"
proof -
  have "dot w (minus_projection u v) = (\<Sum>j<n. w ! j * (v ! j - dot u v * u ! j))"
    using assms
    by (simp add: dot_sum[of w n] length_minus_projection nth_minus_projection)
  also have "\<dots> = (\<Sum>j<n. w ! j * v ! j) - dot u v * (\<Sum>j<n. w ! j * u ! j)"
    by (simp add: sum_subtractf sum_distrib_left algebra_simps)
  finally show ?thesis using assms by (simp add: dot_sum[of w n])
qed

lemma nth_mgs_step:
  "r < length m \<Longrightarrow>
   mgs_step i m ! r =
     (if r = i then normalized (m ! i)
      else if i < r then minus_projection (normalized (m ! i)) (m ! r) else m ! r)"
  by (simp add: mgs_step_def Let_def)

lemma orthonormal_mgs_step:
  assumes ws: "well_shaped n d m" and i: "i < d"
    and inv: "orthonormal_upto i d m"
    and nz: "euclid_norm (m ! i) \<noteq> 0"
  shows "orthonormal_upto (Suc i) d (mgs_step i m)"
proof -
  let ?u = "normalized (m ! i)"
  have lm: "length m = d" and rows: "\<And>r. r < d \<Longrightarrow> length (m ! r) = n"
    using ws by (simp_all add: well_shaped_def)
  have lu: "length ?u = n" using rows[OF i] by (simp add: length_normalized)
  have unit: "\<And>a. a < i \<Longrightarrow> dot (m ! a) (m ! a) = 1"
    and orth: "\<And>a b. a < i \<Longrightarrow> b < d \<Longrightarrow> a \<noteq> b \<Longrightarrow> dot (m ! a) (m ! b) = 0"
    using inv by (simp_all add: orthonormal_upto_def)
  have uu: "dot ?u ?u = 1" using nz by (rule dot_normalized_self)
  have au: "dot (m ! a) ?u = 0" if "a < i" for a
  proof -
    have "dot (m ! a) ?u = dot (m ! a) (m ! i) / euclid_norm (m ! i)"
      using that i rows[of a] rows[OF i] by (simp add: dot_normalized_right)
    then show ?thesis using orth[OF that i] that by simp
  qed
  have ua: "dot ?u (m ! a) = 0" if "a < i" for a
    using au[OF that] that i rows[of a] lu by (simp add: dot_commute)
  have row: "mgs_step i m ! r =
     (if r = i then ?u else if i < r then minus_projection ?u (m ! r) else m ! r)"
    if "r < d" for r
    using that lm by (simp add: nth_mgs_step)
  have wproj: "dot w (minus_projection ?u (m ! b)) = dot w (m ! b) - dot ?u (m ! b) * dot w ?u"
    if "b < d" "length w = n" for b w
    using that rows[of b] lu by (intro dot_minus_projection_right) simp_all
  have "dot (mgs_step i m ! a) (mgs_step i m ! a) = 1" if a: "a < Suc i" for a
  proof (cases "a = i")
    case True
    then show ?thesis using i uu by (simp add: row)
  next
    case False
    with a have ai: "a < i" by simp
    then show ?thesis using i unit[OF ai] by (simp add: row)
  qed
  moreover have "dot (mgs_step i m ! a) (mgs_step i m ! b) = 0"
    if a: "a < Suc i" and b: "b < d" and ab: "a \<noteq> b" for a b
  proof (cases "a = i")
    case True
    show ?thesis
    proof (cases "i < b")
      case True
      have "dot ?u (minus_projection ?u (m ! b)) = dot ?u (m ! b) - dot ?u (m ! b) * dot ?u ?u"
        by (rule wproj[OF b lu])
      then show ?thesis using True \<open>a = i\<close> i b uu by (simp add: row)
    next
      case False
      with ab \<open>a = i\<close> have bi: "b < i" by simp
      then show ?thesis using \<open>a = i\<close> i b ua[OF bi] by (simp add: row)
    qed
  next
    case False
    with a have ai: "a < i" by simp
    then have ad: "a < d" using i by simp
    have la: "length (m ! a) = n" by (rule rows[OF ad])
    show ?thesis
    proof (cases "i < b")
      case True
      have "dot (m ! a) (minus_projection ?u (m ! b))
          = dot (m ! a) (m ! b) - dot ?u (m ! b) * dot (m ! a) ?u"
        by (rule wproj[OF b la])
      then show ?thesis using True ai ad b au[OF ai] orth[OF ai b ab] by (simp add: row)
    next
      case False
      show ?thesis
      proof (cases "b = i")
        case True
        then show ?thesis using ai ad b au[OF ai] by (simp add: row)
      next
        case False
        with \<open>\<not> i < b\<close> have "b < i" by simp
        then show ?thesis using ai ad b orth[OF ai b ab] by (simp add: row)
      qed
    qed
  qed
  ultimately show ?thesis by (simp add: orthonormal_upto_def)
qed

lemma orth_loop_orthonormal:
  assumes ws: "well_shaped n d m"
    and nz: "\<forall>i<d. intermediate_norm n d m i \<noteq> 0"
    and k: "k \<le> d"
  shows "orthonormal_upto k d (for_loop 0 k (orth_body n d True) m)"
  using k
proof (induction k)
  case 0
  show ?case by (simp add: orthonormal_upto_def)
next
  case (Suc k)
  let ?t = "for_loop 0 k (orth_body n d True) m"
  from Suc.prems have kd: "k < d" and kle: "k \<le> d" by simp_all
  have wst: "well_shaped n d ?t" using orth_loop_eq[OF ws kle] by blast
  have inv: "orthonormal_upto k d ?t" by (rule Suc.IH[OF kle])
  have "length (?t ! k) = n" using wst kd by (simp add: well_shaped_def)
  then have "euclid_norm (?t ! k) = intermediate_norm n d m k"
    by (simp add: intermediate_norm_def normCoeff_norm)
  then have nzk: "euclid_norm (?t ! k) \<noteq> 0" using nz kd by simp
  have "for_loop 0 (Suc k) (orth_body n d True) m = mgs_step k ?t"
    by (simp add: for_loop_Suc orth_body_eq[OF wst kd])
  then show ?case using orthonormal_mgs_step[OF wst kd inv nzk] by simp
qed

text \<open>
  Claim C5: in exact arithmetic, if every norm that step 2 divides by is not zero, the
  matrix built with \<open>bDoOrth = true\<close> has rows of unit Euclidean norm, and any two
  distinct rows have dot product zero.
\<close>

theorem initRandProj_orthonormal:
  assumes "\<forall>i<nDstDim.
     intermediate_norm nSrcDim nDstDim (fst (draw_rows nSrcDim nDstDim projMatr0 g0)) i \<noteq> 0"
  shows "(\<forall>i<nDstDim.
            euclid_norm (fst (initRandProj nSrcDim nDstDim True projMatr0 g0) ! i) = 1)
    \<and> (\<forall>i<nDstDim. \<forall>k<nDstDim. i \<noteq> k \<longrightarrow>
          dot (fst (initRandProj nSrcDim nDstDim True projMatr0 g0) ! i)
              (fst (initRandProj nSrcDim nDstDim True projMatr0 g0) ! k) = 0)"
proof -
  let ?m = "drawn nSrcDim nDstDim g0"
  have nz: "\<forall>i<nDstDim. intermediate_norm nSrcDim nDstDim ?m i \<noteq> 0"
    using assms by (simp add: draw_rows_eq)
  have res: "fst (initRandProj nSrcDim nDstDim True projMatr0 g0)
      = for_loop 0 nDstDim (orth_body nSrcDim nDstDim True) ?m"
    by (simp add: initRandProj_def draw_rows_eq)
  have "orthonormal_upto nDstDim nDstDim (for_loop 0 nDstDim (orth_body nSrcDim nDstDim True) ?m)"
    by (rule orth_loop_orthonormal[OF well_shaped_drawn nz]) simp
  then show ?thesis
    unfolding res by (simp add: orthonormal_upto_def euclid_norm_def)
qed


text \<open>
  The draws \<open>(1, 0)\<close> and \<open>(1, 1)\<close>: both norms that step 2 divides by are 1, and
  the matrix built is orthonormal.
\<close>

theorem initRandProj_orthonormal_witness:
  "euclid_norm (fst (initRandProj 2 2 True [] (data_ptr [1, 0, 1, 1])) ! 0) = 1
   \<and> euclid_norm (fst (initRandProj 2 2 True [] (data_ptr [1, 0, 1, 1])) ! 1) = 1
   \<and> dot (fst (initRandProj 2 2 True [] (data_ptr [1, 0, 1, 1])) ! 0)
          (fst (initRandProj 2 2 True [] (data_ptr [1, 0, 1, 1])) ! 1) = 0"
proof -
  let ?g = "data_ptr [1, 0, 1, 1 :: real]"
  let ?m = "[[1, 0], [1, 1 :: real]]"
  have two: "[0..<2] = [0, Suc 0]" by (simp add: numeral_2_eq_2)
  have m: "fst (draw_rows 2 2 [] ?g) = ?m"
    by (simp add: draw_rows_eq drawn_def two data_ptr_def)
  have ws: "well_shaped 2 2 ?m"
    by (simp add: well_shaped_def All_less_Suc numeral_2_eq_2)
  have n0: "intermediate_norm 2 2 ?m 0 = 1"
    by (simp add: intermediate_norm_def for_loop_done normCoeff_norm euclid_norm_def dot_def)
  have "for_loop 0 (Suc 0) (orth_body 2 2 True) ?m = mgs_step 0 ?m"
    using orth_body_eq[OF ws, of 0] by (simp add: for_loop_Suc for_loop_done)
  also have "\<dots> = [[1, 0], [0, 1]]"
    by (simp add: mgs_step_def two normalized_def minus_projection_def euclid_norm_def dot_def)
  finally have n1: "intermediate_norm 2 2 ?m 1 = 1"
    by (simp add: intermediate_norm_def normCoeff_norm euclid_norm_def dot_def)
  have nz: "\<forall>i<2. intermediate_norm 2 2 (fst (draw_rows 2 2 [] ?g)) i \<noteq> 0"
    unfolding m using n0 n1 by (simp add: All_less_Suc numeral_2_eq_2)
  have "(0::nat) < 2" "(1::nat) < 2" "(0::nat) \<noteq> 1" by simp_all
  with initRandProj_orthonormal[OF nz] show ?thesis by blast
qed

subsection \<open>The order of the assignments of step 2\<close>
















section \<open>Properties of \<open>compProj\<close>\<close>

subsection \<open>The loop over the rows\<close>

lemma wrote_empty: "hi \<le> lo \<Longrightarrow> wrote nSrcDim lo hi s = s"
proof -
  assume "hi \<le> lo"
  then have "(\<lambda>j. if lo \<le> j \<and> j < hi
                then ScalarProductSIMD (data_ptr (projMatr s ! j)) (pSrcVect s) nSrcDim
                else pDstVect s j) = pDstVect s"
    by (auto simp: fun_eq_iff)
  then show ?thesis by (simp add: wrote_def)
qed

lemma wrote_step:
  "i < hi \<Longrightarrow>
   wrote nSrcDim (Suc i) hi
     (s\<lparr>pDstVect := (pDstVect s)
          (i := ScalarProductSIMD (data_ptr (projMatr s ! i)) (pSrcVect s) nSrcDim)\<rparr>)
   = wrote nSrcDim i hi s"
  by (auto simp: wrote_def fun_eq_iff)

lemma compProj_rows_ok:
  "\<forall>j. i \<le> j \<and> j < nDstDim \<longrightarrow> length (projMatr s ! j) = nSrcDim \<Longrightarrow>
   compProj_rows nSrcDim nDstDim i s = (None, wrote nSrcDim i nDstDim s)"
proof (induction nSrcDim nDstDim i s rule: compProj_rows.induct)
  case (1 nSrcDim nDstDim i s)
  show ?case
  proof (cases "i < nDstDim")
    case False
    then show ?thesis by (simp add: compProj_rows.simps[of _ _ i] wrote_empty)
  next
    case True
    with "1.prems" have len: "length (projMatr s ! i) = nSrcDim" by simp
    let ?s = "s\<lparr>pDstVect := (pDstVect s)
          (i := ScalarProductSIMD (data_ptr (projMatr s ! i)) (pSrcVect s) nSrcDim)\<rparr>"
    have "compProj_rows nSrcDim nDstDim (Suc i) ?s = (None, wrote nSrcDim (Suc i) nDstDim ?s)"
      using "1.IH"[OF True] len "1.prems" by simp
    then show ?thesis
      using True len by (simp add: compProj_rows.simps[of _ _ i] wrote_step)
  qed
qed

lemma compProj_rows_bad:
  "i \<le> r \<Longrightarrow> r < nDstDim \<Longrightarrow> length (projMatr s ! r) \<noteq> nSrcDim \<Longrightarrow>
   \<forall>j. i \<le> j \<and> j < r \<longrightarrow> length (projMatr s ! j) = nSrcDim \<Longrightarrow>
   compProj_rows nSrcDim nDstDim i s =
     (Some (ColCount r (length (projMatr s ! r)) nSrcDim), wrote nSrcDim i r s)"
proof (induction nSrcDim nDstDim i s rule: compProj_rows.induct)
  case (1 nSrcDim nDstDim i s)
  show ?case
  proof (cases "i = r")
    case True
    then show ?thesis using "1.prems"
      by (simp add: compProj_rows.simps[of _ _ r] wrote_empty)
  next
    case False
    with "1.prems" have lt: "i < r" "i < nDstDim" by simp_all
    with "1.prems" have len: "length (projMatr s ! i) = nSrcDim" by simp
    let ?s = "s\<lparr>pDstVect := (pDstVect s)
          (i := ScalarProductSIMD (data_ptr (projMatr s ! i)) (pSrcVect s) nSrcDim)\<rparr>"
    have "compProj_rows nSrcDim nDstDim (Suc i) ?s =
       (Some (ColCount r (length (projMatr ?s ! r)) nSrcDim), wrote nSrcDim (Suc i) r ?s)"
      using "1.IH"[OF lt(2)] len "1.prems" lt by simp
    then show ?thesis
      using lt len by (simp add: compProj_rows.simps[of _ _ i] wrote_step)
  qed
qed


lemma compProj_rows_cases:
  obtains (ok) "\<forall>j. i \<le> j \<and> j < nDstDim \<longrightarrow> length (projMatr s ! j) = nSrcDim"
  | (bad) r where "i \<le> r" "r < nDstDim" "length (projMatr s ! r) \<noteq> nSrcDim"
      "\<forall>j. i \<le> j \<and> j < r \<longrightarrow> length (projMatr s ! j) = nSrcDim"
proof (cases "\<exists>j. i \<le> j \<and> j < nDstDim \<and> length (projMatr s ! j) \<noteq> nSrcDim")
  case False
  then show ?thesis using ok by blast
next
  case True
  define r where "r = (LEAST j. i \<le> j \<and> j < nDstDim \<and> length (projMatr s ! j) \<noteq> nSrcDim)"
  have r: "i \<le> r \<and> r < nDstDim \<and> length (projMatr s ! r) \<noteq> nSrcDim"
    unfolding r_def using True by (rule LeastI_ex)
  have "\<forall>j. i \<le> j \<and> j < r \<longrightarrow> length (projMatr s ! j) = nSrcDim"
  proof (intro allI impI)
    fix j assume j: "i \<le> j \<and> j < r"
    show "length (projMatr s ! j) = nSrcDim"
    proof (rule ccontr)
      assume "length (projMatr s ! j) \<noteq> nSrcDim"
      with j r have "i \<le> j \<and> j < nDstDim \<and> length (projMatr s ! j) \<noteq> nSrcDim" by simp
      then have "r \<le> j" unfolding r_def by (rule Least_le)
      with j show False by simp
    qed
  qed
  with r show ?thesis using bad by blast
qed

lemma compProj_valid:
  assumes "projMatr s \<noteq> []" "length (projMatr s) = nDstDim"
    "\<forall>i<nDstDim. length (projMatr s ! i) = nSrcDim"
  shows "compProj s nSrcDim nDstDim = (None, wrote nSrcDim 0 nDstDim s)"
  using assms by (simp add: compProj_def compProj_rows_ok)

text \<open>
  Claim C10: a call with an empty matrix halts with the fatal error of the first check,
  whatever \<open>nDstDim\<close> is, and in particular when \<open>nDstDim = 0\<close>, where the row
  count agrees with \<open>nDstDim\<close>. An empty matrix never leads to a returning call.
\<close>

theorem compProj_empty_matrix_fatal:
  "fst (compProj (s\<lparr>projMatr := []\<rparr>) nSrcDim nDstDim) = Some EmptyMatrix
   \<and> fst (compProj (s\<lparr>projMatr := []\<rparr>) nSrcDim 0) = Some EmptyMatrix"
  by (simp add: compProj_def)

text \<open>
  Claim C7: the call halts with a fatal error exactly when the matrix is empty, or its
  number of rows is not \<open>nDstDim\<close>, or some row has a length other than \<open>nSrcDim\<close>.
  On every other input it returns: nothing is truncated or padded.
\<close>

theorem compProj_fatal_iff:
  "fst (compProj s nSrcDim nDstDim) \<noteq> None \<longleftrightarrow>
     (projMatr s = [] \<or> length (projMatr s) \<noteq> nDstDim
      \<or> (\<exists>i<length (projMatr s). length (projMatr s ! i) \<noteq> nSrcDim))"
proof (cases "projMatr s = [] \<or> length (projMatr s) \<noteq> nDstDim")
  case True
  then show ?thesis by (auto simp: compProj_def)
next
  case False
  then have c: "compProj s nSrcDim nDstDim = compProj_rows nSrcDim nDstDim 0 s"
    and len: "length (projMatr s) = nDstDim"
    by (simp_all add: compProj_def)
  show ?thesis
  proof (cases rule: compProj_rows_cases[of 0 nDstDim s nSrcDim])
    case ok
    then show ?thesis using c len False by (simp add: compProj_rows_ok)
  next
    case (bad r)
    then show ?thesis using c len False by (auto simp: compProj_rows_bad)
  qed
qed


text \<open>
  The characterisation at a well-shaped matrix, where the call returns, and at a matrix
  with a short second row, where it halts.
\<close>

theorem compProj_fatal_iff_witness:
  "fst (compProj \<lparr>projMatr = [[1, 0], [0, 1]], pSrcVect = data_ptr [3, 4],
                  pDstVect = data_ptr [0, 0]\<rparr> 2 2) = None
   \<and> fst (compProj \<lparr>projMatr = [[1, 0], [0]], pSrcVect = data_ptr [3, 4],
                  pDstVect = data_ptr [0, 0]\<rparr> 2 2) \<noteq> None"
proof -
  let ?s = "\<lparr>projMatr = [[1, 0], [0, 1]], pSrcVect = data_ptr [3, 4],
             pDstVect = data_ptr [0, 0]\<rparr>"
  let ?t = "\<lparr>projMatr = [[1, 0], [0]], pSrcVect = data_ptr [3, 4],
             pDstVect = data_ptr [0, 0]\<rparr>"
  have "\<not> (projMatr ?s = [] \<or> length (projMatr ?s) \<noteq> 2
      \<or> (\<exists>i<length (projMatr ?s). length (projMatr ?s ! i) \<noteq> 2))"
    by (simp add: Ex_less_Suc)
  then have a: "fst (compProj ?s 2 2) = None"
    using compProj_fatal_iff[of ?s 2 2] by blast
  have "1 < length (projMatr ?t) \<and> length (projMatr ?t ! 1) \<noteq> 2"
    by simp
  then have "\<exists>i<length (projMatr ?t). length (projMatr ?t ! i) \<noteq> 2"
    by blast
  then have b: "fst (compProj ?t 2 2) \<noteq> None"
    using compProj_fatal_iff[of ?t 2 2] by blast
  from a b show ?thesis by simp
qed

text \<open>
  Claim C2: for a matrix of \<open>nDstDim\<close> rows of length \<open>nSrcDim\<close>, the call leaves in
  every entry \<open>i < nDstDim\<close> of the destination buffer the dot product of row \<open>i\<close> with
  the first \<open>nSrcDim\<close> elements of the source buffer, whatever the buffer held before;
  the call returns when there is at least one row.
\<close>

theorem compProj_dot_products:
  assumes "length (projMatr s) = nDstDim"
    and "\<forall>i<nDstDim. length (projMatr s ! i) = nSrcDim"
  shows "(0 < nDstDim \<longrightarrow> fst (compProj s nSrcDim nDstDim) = None)
    \<and> (\<forall>i<nDstDim. pDstVect (snd (compProj s nSrcDim nDstDim)) i =
           (\<Sum>j<nSrcDim. projMatr s ! i ! j * pSrcVect s j))"
proof (cases "projMatr s = []")
  case True
  with assms show ?thesis by simp
next
  case False
  with assms have "compProj s nSrcDim nDstDim = (None, wrote nSrcDim 0 nDstDim s)"
    by (simp add: compProj_valid)
  then show ?thesis
    by (simp add: wrote_def ScalarProductSIMD_def data_ptr_def)
qed

text \<open>
  The matrix with rows \<open>(1, 2)\<close> and \<open>(0, 1)\<close> maps \<open>(3, 4)\<close> to \<open>(11, 4)\<close>.
\<close>

theorem compProj_dot_products_witness:
  "fst (compProj \<lparr>projMatr = [[1, 2], [0, 1]], pSrcVect = data_ptr [3, 4],
                  pDstVect = data_ptr [0, 0]\<rparr> 2 2) = None
   \<and> pDstVect (snd (compProj \<lparr>projMatr = [[1, 2], [0, 1]], pSrcVect = data_ptr [3, 4],
                  pDstVect = data_ptr [0, 0]\<rparr> 2 2)) 0 = 11
   \<and> pDstVect (snd (compProj \<lparr>projMatr = [[1, 2], [0, 1]], pSrcVect = data_ptr [3, 4],
                  pDstVect = data_ptr [0, 0]\<rparr> 2 2)) 1 = 4"
proof -
  let ?s = "\<lparr>projMatr = [[1, 2], [0, 1]], pSrcVect = data_ptr [3, 4],
             pDstVect = data_ptr [0, 0]\<rparr>"
  have len: "length (projMatr ?s) = 2" by simp
  have cols: "\<forall>i<2. length (projMatr ?s ! i) = 2"
    by (simp add: All_less_Suc numeral_2_eq_2)
  have two: "{..<2::nat} = {0, 1}" by auto
  from compProj_dot_products[OF len cols]
  show ?thesis by (simp add: two data_ptr_def)
qed

text \<open>
  Claim C3 as stated fails: the size of a row is checked inside the loop, after the
  entries for the rows before it have been written. With the rows \<open>(1)\<close> and \<open>()\<close>,
  \<open>nSrcDim = 1\<close> and \<open>nDstDim = 2\<close>, the call halts at row 1 and entry 0 of the
  destination buffer has changed from 0 to 5.
\<close>

theorem compProj_partial_write_counterexample:
  "fst (compProj \<lparr>projMatr = [[1], []], pSrcVect = data_ptr [5],
                  pDstVect = data_ptr [0, 0]\<rparr> 1 2) = Some (ColCount 1 0 1)
   \<and> pDstVect (snd (compProj \<lparr>projMatr = [[1], []], pSrcVect = data_ptr [5],
                  pDstVect = data_ptr [0, 0]\<rparr> 1 2)) 0 = 5
   \<and> pDstVect \<lparr>projMatr = [[1], []], pSrcVect = data_ptr [5],
                  pDstVect = data_ptr [0, 0]\<rparr> 0 = 0"
  by (simp add: compProj_def compProj_rows.simps ScalarProductSIMD_def data_ptr_def)

text \<open>
  Claim C3, amended: when the matrix is empty the call halts with the fatal error of
  the first check, and when its number of rows is not \<open>nDstDim\<close> it halts with the fatal
  error of the second check; in both cases nothing has been written. When the number
  of rows is \<open>nDstDim\<close> and \<open>r\<close> is the first row whose length is not \<open>nSrcDim\<close>, the
  call halts with the fatal error for row \<open>r\<close>: the entries below \<open>r\<close> of the
  destination buffer hold their dot products and the entries from \<open>r\<close> on are
  unchanged.
\<close>

theorem compProj_failed_writes:
  "(projMatr s = [] \<longrightarrow> compProj s nSrcDim nDstDim = (Some EmptyMatrix, s))
   \<and> (projMatr s \<noteq> [] \<and> length (projMatr s) \<noteq> nDstDim \<longrightarrow>
        compProj s nSrcDim nDstDim = (Some (RowCount (length (projMatr s)) nDstDim), s))
   \<and> (length (projMatr s) = nDstDim \<and> r < nDstDim
        \<and> length (projMatr s ! r) \<noteq> nSrcDim
        \<and> (\<forall>j<r. length (projMatr s ! j) = nSrcDim) \<longrightarrow>
      fst (compProj s nSrcDim nDstDim) = Some (ColCount r (length (projMatr s ! r)) nSrcDim)
      \<and> (\<forall>j. pDstVect (snd (compProj s nSrcDim nDstDim)) j =
             (if j < r then (\<Sum>n<nSrcDim. projMatr s ! j ! n * pSrcVect s n)
              else pDstVect s j)))"
proof (intro conjI impI)
  assume "projMatr s = []"
  then show "compProj s nSrcDim nDstDim = (Some EmptyMatrix, s)"
    by (simp add: compProj_def)
next
  assume "projMatr s \<noteq> [] \<and> length (projMatr s) \<noteq> nDstDim"
  then show "compProj s nSrcDim nDstDim = (Some (RowCount (length (projMatr s)) nDstDim), s)"
    by (simp add: compProj_def)
next
  assume a: "length (projMatr s) = nDstDim \<and> r < nDstDim
        \<and> length (projMatr s ! r) \<noteq> nSrcDim
        \<and> (\<forall>j<r. length (projMatr s ! j) = nSrcDim)"
  then have ne: "projMatr s \<noteq> []" by auto
  have "compProj_rows nSrcDim nDstDim 0 s =
     (Some (ColCount r (length (projMatr s ! r)) nSrcDim), wrote nSrcDim 0 r s)"
    using a by (intro compProj_rows_bad) simp_all
  with a ne have c: "compProj s nSrcDim nDstDim =
     (Some (ColCount r (length (projMatr s ! r)) nSrcDim), wrote nSrcDim 0 r s)"
    by (simp add: compProj_def)
  show "fst (compProj s nSrcDim nDstDim) = Some (ColCount r (length (projMatr s ! r)) nSrcDim)"
    by (simp add: c)
  show "\<forall>j. pDstVect (snd (compProj s nSrcDim nDstDim)) j =
             (if j < r then (\<Sum>n<nSrcDim. projMatr s ! j ! n * pSrcVect s n)
              else pDstVect s j)"
    by (simp add: c wrote_def ScalarProductSIMD_def data_ptr_def)
qed

text \<open>
  The three cases of the amended claim: an empty matrix, a matrix with one row where
  two are expected, and a matrix whose row 1 is short.
\<close>

theorem compProj_failed_writes_witness:
  "compProj \<lparr>projMatr = [], pSrcVect = data_ptr [5], pDstVect = data_ptr [7, 8]\<rparr> 1 0
     = (Some EmptyMatrix,
        \<lparr>projMatr = [], pSrcVect = data_ptr [5], pDstVect = data_ptr [7, 8]\<rparr>)
   \<and> compProj \<lparr>projMatr = [[1]], pSrcVect = data_ptr [5], pDstVect = data_ptr [7, 8]\<rparr> 1 2
     = (Some (RowCount 1 2),
        \<lparr>projMatr = [[1]], pSrcVect = data_ptr [5], pDstVect = data_ptr [7, 8]\<rparr>)
   \<and> fst (compProj \<lparr>projMatr = [[1], []], pSrcVect = data_ptr [5],
                  pDstVect = data_ptr [7, 8]\<rparr> 1 2) = Some (ColCount 1 0 1)
   \<and> pDstVect (snd (compProj \<lparr>projMatr = [[1], []], pSrcVect = data_ptr [5],
                  pDstVect = data_ptr [7, 8]\<rparr> 1 2)) 0 = 5
   \<and> pDstVect (snd (compProj \<lparr>projMatr = [[1], []], pSrcVect = data_ptr [5],
                  pDstVect = data_ptr [7, 8]\<rparr> 1 2)) 1 = 8"
proof -
  let ?e = "\<lparr>projMatr = [], pSrcVect = data_ptr [5], pDstVect = data_ptr [7, 8]\<rparr>"
  let ?c = "\<lparr>projMatr = [[1]], pSrcVect = data_ptr [5], pDstVect = data_ptr [7, 8]\<rparr>"
  let ?s = "\<lparr>projMatr = [[1], []], pSrcVect = data_ptr [5], pDstVect = data_ptr [7, 8]\<rparr>"
  have a: "compProj ?e 1 0 = (Some EmptyMatrix, ?e)"
    using compProj_failed_writes[where s = ?e and nSrcDim = 1 and nDstDim = 0 and r = 0]
    by simp
  have b: "compProj ?c 1 2 = (Some (RowCount 1 2), ?c)"
    using compProj_failed_writes[where s = ?c and nSrcDim = 1 and nDstDim = 2 and r = 0]
    by simp
  have h: "length (projMatr ?s) = 2 \<and> (1::nat) < 2
        \<and> length (projMatr ?s ! 1) \<noteq> 1
        \<and> (\<forall>j<1. length (projMatr ?s ! j) = 1)"
    by simp
  have one: "{..<1::nat} = {0}" by auto
  from h compProj_failed_writes[where s = ?s and nSrcDim = 1 and nDstDim = 2 and r = 1]
  have "fst (compProj ?s 1 2) = Some (ColCount 1 (length (projMatr ?s ! 1)) 1)
      \<and> (\<forall>j. pDstVect (snd (compProj ?s 1 2)) j =
             (if j < 1 then (\<Sum>n<1. projMatr ?s ! j ! n * pSrcVect ?s n)
              else pDstVect ?s j))"
    by blast
  then have "fst (compProj ?s 1 2) = Some (ColCount 1 0 1)
     \<and> pDstVect (snd (compProj ?s 1 2)) 0 = 5 \<and> pDstVect (snd (compProj ?s 1 2)) 1 = 8"
    by (simp add: one data_ptr_def)
  with a b show ?thesis by simp
qed

text \<open>
  Claim C8: the call leaves the matrix and the source buffer as they were, and writes
  no entry of the destination buffer at an index from \<open>nDstDim\<close> on. This holds for
  every call, so for every valid one.
\<close>

theorem compProj_frame:
  "projMatr (snd (compProj s nSrcDim nDstDim)) = projMatr s
   \<and> pSrcVect (snd (compProj s nSrcDim nDstDim)) = pSrcVect s
   \<and> (\<forall>j\<ge>nDstDim. pDstVect (snd (compProj s nSrcDim nDstDim)) j = pDstVect s j)"
proof (cases "projMatr s = [] \<or> length (projMatr s) \<noteq> nDstDim")
  case True
  then show ?thesis by (auto simp: compProj_def)
next
  case False
  then have c: "compProj s nSrcDim nDstDim = compProj_rows nSrcDim nDstDim 0 s"
    by (simp add: compProj_def)
  show ?thesis
  proof (cases rule: compProj_rows_cases[of 0 nDstDim s nSrcDim])
    case ok
    then show ?thesis by (simp add: c compProj_rows_ok wrote_def)
  next
    case (bad r)
    then show ?thesis by (simp add: c compProj_rows_bad wrote_def)
  qed
qed

text \<open>
  A valid call on a destination buffer of three elements: the third one is kept.
\<close>

theorem compProj_frame_witness:
  "projMatr (snd (compProj \<lparr>projMatr = [[1, 2], [0, 1]], pSrcVect = data_ptr [3, 4],
                  pDstVect = data_ptr [0, 0, 9]\<rparr> 2 2)) = [[1, 2], [0, 1]]
   \<and> pSrcVect (snd (compProj \<lparr>projMatr = [[1, 2], [0, 1]], pSrcVect = data_ptr [3, 4],
                  pDstVect = data_ptr [0, 0, 9]\<rparr> 2 2)) = data_ptr [3, 4]
   \<and> pDstVect (snd (compProj \<lparr>projMatr = [[1, 2], [0, 1]], pSrcVect = data_ptr [3, 4],
                  pDstVect = data_ptr [0, 0, 9]\<rparr> 2 2)) 2 = 9"
  using compProj_frame[of "\<lparr>projMatr = [[1, 2], [0, 1]], pSrcVect = data_ptr [3, 4],
                  pDstVect = data_ptr [0, 0, 9]\<rparr>" 2 2]
  by (simp add: data_ptr_def)



lemma ScalarProductSIMD_cong:
  "\<forall>j<qty. q1 j = q2 j \<Longrightarrow> ScalarProductSIMD p q1 qty = ScalarProductSIMD p q2 qty"
  by (simp add: ScalarProductSIMD_def)

text \<open>
  Claim C9: the outcome and the \<open>nDstDim\<close> entries written by a returning call depend
  only on the matrix, the first \<open>nSrcDim\<close> elements of the source buffer and the two
  dimensions. Two calls that agree on these produce the same destination vector,
  whatever the destination buffers and the memory behind the source vector held.
\<close>

theorem compProj_deterministic:
  assumes m: "projMatr s1 = projMatr s2"
    and src: "\<forall>j<nSrcDim. pSrcVect s1 j = pSrcVect s2 j"
  shows "fst (compProj s1 nSrcDim nDstDim) = fst (compProj s2 nSrcDim nDstDim)
    \<and> (fst (compProj s1 nSrcDim nDstDim) = None \<longrightarrow>
         (\<forall>i<nDstDim. pDstVect (snd (compProj s1 nSrcDim nDstDim)) i =
                       pDstVect (snd (compProj s2 nSrcDim nDstDim)) i))"
proof (cases "projMatr s1 = [] \<or> length (projMatr s1) \<noteq> nDstDim")
  case True
  then show ?thesis using m by (auto simp: compProj_def)
next
  case False
  then have c1: "compProj s1 nSrcDim nDstDim = compProj_rows nSrcDim nDstDim 0 s1"
    and c2: "compProj s2 nSrcDim nDstDim = compProj_rows nSrcDim nDstDim 0 s2"
    using m by (simp_all add: compProj_def)
  have dot: "ScalarProductSIMD p (pSrcVect s1) nSrcDim = ScalarProductSIMD p (pSrcVect s2) nSrcDim"
    for p using src by (rule ScalarProductSIMD_cong)
  show ?thesis
  proof (cases rule: compProj_rows_cases[of 0 nDstDim s1 nSrcDim])
    case ok
    then have "compProj_rows nSrcDim nDstDim 0 s1 = (None, wrote nSrcDim 0 nDstDim s1)"
      and "compProj_rows nSrcDim nDstDim 0 s2 = (None, wrote nSrcDim 0 nDstDim s2)"
      using m by (simp_all add: compProj_rows_ok)
    then show ?thesis using m dot by (simp add: c1 c2 wrote_def)
  next
    case (bad r)
    then have "compProj_rows nSrcDim nDstDim 0 s1 =
        (Some (ColCount r (length (projMatr s1 ! r)) nSrcDim), wrote nSrcDim 0 r s1)"
      and "compProj_rows nSrcDim nDstDim 0 s2 =
        (Some (ColCount r (length (projMatr s2 ! r)) nSrcDim), wrote nSrcDim 0 r s2)"
      using m by (simp_all add: compProj_rows_bad)
    then show ?thesis using m by (simp add: c1 c2)
  qed
qed

text \<open>
  Two calls with the same matrix and source vector, on different destination buffers.
\<close>

theorem compProj_deterministic_witness:
  "fst (compProj \<lparr>projMatr = [[1, 2], [0, 1]], pSrcVect = data_ptr [3, 4],
                  pDstVect = data_ptr [0, 0]\<rparr> 2 2) = None
   \<and> pDstVect (snd (compProj \<lparr>projMatr = [[1, 2], [0, 1]], pSrcVect = data_ptr [3, 4],
                  pDstVect = data_ptr [0, 0]\<rparr> 2 2)) 1
     = pDstVect (snd (compProj \<lparr>projMatr = [[1, 2], [0, 1]], pSrcVect = data_ptr [3, 4, 6],
                  pDstVect = data_ptr [7, 8]\<rparr> 2 2)) 1"
proof -
  let ?s1 = "\<lparr>projMatr = [[1, 2], [0, 1]], pSrcVect = data_ptr [3, 4],
              pDstVect = data_ptr [0, 0]\<rparr>"
  let ?s2 = "\<lparr>projMatr = [[1, 2], [0, 1]], pSrcVect = data_ptr [3, 4, 6],
              pDstVect = data_ptr [7, 8]\<rparr>"
  have m: "projMatr ?s1 = projMatr ?s2" by simp
  have src: "\<forall>j<2. pSrcVect ?s1 j = pSrcVect ?s2 j"
    by (simp add: All_less_Suc numeral_2_eq_2 data_ptr_def)
  have ok: "fst (compProj ?s1 2 2) = None"
    by (simp add: compProj_def compProj_rows.simps)
  have "(1::nat) < 2" by simp
  with compProj_deterministic[OF m src, of 2] ok show ?thesis by blast
qed

end
